theory Spec2Isabelle
  imports Main "HOL-Library.AList"
begin

text \<open>
  A model of the dependency injector of \<^verbatim>\<open>src/lib/Injector.js\<close>: the signature
  parser (\<^verbatim>\<open>_getArguments\<close>, \<^verbatim>\<open>_getArgumentsFromString\<close> and their six regular
  expressions), the invocation adapter (\<^verbatim>\<open>_invokeFunction\<close>), registration, and
  resolution (\<^verbatim>\<open>resolve\<close>, \<^verbatim>\<open>_resolve\<close>). A name of the source keeps its
  spelling without the leading underscore; \<^verbatim>\<open>_resolve\<close> is \<open>resolve_priv\<close>. The
  registration by path, by \<^verbatim>\<open>require\<close> and by import, and the test globals, load
  modules and are not modelled.
\<close>

section \<open>Values, errors and functions of the host language\<close>

text \<open>
  The injector of \<^verbatim>\<open>src/lib/Injector.js\<close> stores and returns arbitrary JavaScript
  values. The development needs their truthiness only, so a value is a primitive, an
  opaque object reference, the injector itself (registered under \<^verbatim>\<open>$injector\<close>), or
  a member of \<^verbatim>\<open>Object.prototype\<close> reached through a property read on a plain
  object. None of these values has a property named \<^verbatim>\<open>value\<close>,
  \<^verbatim>\<open>dependencyNames\<close> or \<^verbatim>\<open>factory\<close>: an object that has one is not a
  value of this type. Strings are lists of code units below 256.
\<close>

datatype val =
    Undefined
  | Null
  | Bool bool
  | Num int
  | Str string
  | Obj nat
  | Self
  | Builtin string

fun truthy :: "val \<Rightarrow> bool" where
  "truthy Undefined = False"
| "truthy Null = False"
| "truthy (Bool b) = b"
| "truthy (Num n) = (n \<noteq> 0)"
| "truthy (Str s) = (s \<noteq> [])"
| "truthy (Obj _) = True"
| "truthy Self = True"
| "truthy (Builtin _) = True"

text \<open>
  \<^verbatim>\<open>throw new Error(msg)\<close> in the injector is \<open>Error msg\<close>. \<open>TypeError\<close> is
  the engine's error for a property read or a call on \<^verbatim>\<open>undefined\<close> (its message
  is engine-specific and not modelled). \<open>Thrown v\<close> is an exception raised by the
  body of a provider.
\<close>

datatype error = Error string | TypeError | Thrown val

text \<open>How a call of a function ends: it returns a value or throws one.\<close>

datatype outcome = Returns val | Throws val

definition completion :: "outcome \<Rightarrow> error + val" where
  "completion out = (case out of Returns v \<Rightarrow> Inr v | Throws v \<Rightarrow> Inl (Thrown v))"

text \<open>
  A function object, as far as the injector looks at it: the optional \<^verbatim>\<open>$inject\<close>
  property, the text \<^verbatim>\<open>fn.toString()\<close>, what \<^verbatim>\<open>fn.apply(null, args)\<close> does and
  what \<^verbatim>\<open>new fn(...args)\<close> does. A function body is a function of its arguments.
  A body that calls a method of the injector while it runs is not represented: the
  source leaves that case open (its first comment is
  \<^verbatim>\<open>TODO: Handle circular resolve within resolver fn\<close>), and every statement
  below about the invocation of providers is about an injector none of whose providers
  does so.
\<close>

record func =
  fn_inject :: "string list option"
  fn_toString :: string
  fn_apply :: "val list \<Rightarrow> outcome"
  fn_construct :: "val list \<Rightarrow> outcome"

section \<open>Regular expressions\<close>

text \<open>
  The six regular expressions of the source are values of \<open>rx\<close>; \<open>rx_m\<close> is the
  backtracking matcher of the language definition, in continuation-passing style:
  it matches a pattern at the front of the remaining input and hands the rest to the
  continuation, and a continuation that fails makes the pattern try its next choice.
  Every quantifier of the source ranges over a single character class.
\<close>

datatype rx =
    Lit string
  | LitI string
  | Cls "char \<Rightarrow> bool"
  | Star "char \<Rightarrow> bool"
  | LazyStar "char \<Rightarrow> bool"
  | Seq rx rx
  | Alt rx rx
  | Opt rx
  | Grp nat rx
  | Bol
  | Eol

type_synonym caps = "(nat \<times> string) list"

definition is_space :: "char \<Rightarrow> bool" where
  "is_space c \<longleftrightarrow> c \<in> set [CHR 0x09, CHR 0x0A, CHR 0x0B, CHR 0x0C, CHR 0x0D, CHR 0x20, CHR 0xA0]"

definition is_dot :: "char \<Rightarrow> bool" where
  "is_dot c \<longleftrightarrow> c \<noteq> CHR 0x0A \<and> c \<noteq> CHR 0x0D"

definition any_char :: "char \<Rightarrow> bool" where
  "any_char c \<longleftrightarrow> True"

definition to_upper :: "char \<Rightarrow> char" where
  "to_upper c =
     (let n = (of_char c :: nat) in if 97 \<le> n \<and> n \<le> 122 then char_of (n - 32) else c)"

fun lit :: "string \<Rightarrow> string \<Rightarrow> string option" where
  "lit [] s = Some s"
| "lit (a # as) [] = None"
| "lit (a # as) (c # cs) = (if a = c then lit as cs else None)"

fun lit_i :: "string \<Rightarrow> string \<Rightarrow> string option" where
  "lit_i [] s = Some s"
| "lit_i (a # as) [] = None"
| "lit_i (a # as) (c # cs) = (if to_upper a = to_upper c then lit_i as cs else None)"

fun star_greedy :: "(char \<Rightarrow> bool) \<Rightarrow> string \<Rightarrow> (string \<Rightarrow> 'a option) \<Rightarrow> 'a option" where
  "star_greedy p [] k = k []"
| "star_greedy p (c # cs) k =
     (if p c then (case star_greedy p cs k of Some r \<Rightarrow> Some r | None \<Rightarrow> k (c # cs))
      else k (c # cs))"

fun star_lazy :: "(char \<Rightarrow> bool) \<Rightarrow> string \<Rightarrow> (string \<Rightarrow> 'a option) \<Rightarrow> 'a option" where
  "star_lazy p [] k = k []"
| "star_lazy p (c # cs) k =
     (case k (c # cs) of Some r \<Rightarrow> Some r
      | None \<Rightarrow> if p c then star_lazy p cs k else None)"

text \<open>
  \<open>rx_m n r s cs k\<close>: \<open>n\<close> is the length of the whole input (for \<^verbatim>\<open>^\<close>), \<open>s\<close> the
  remaining input, \<open>cs\<close> the captures so far (newest first).
\<close>

fun rx_m :: "nat \<Rightarrow> rx \<Rightarrow> string \<Rightarrow> caps \<Rightarrow> (string \<Rightarrow> caps \<Rightarrow> 'a option) \<Rightarrow> 'a option" where
  "rx_m n (Lit l) s cs k = (case lit l s of None \<Rightarrow> None | Some r \<Rightarrow> k r cs)"
| "rx_m n (LitI l) s cs k = (case lit_i l s of None \<Rightarrow> None | Some r \<Rightarrow> k r cs)"
| "rx_m n (Cls p) s cs k = (case s of [] \<Rightarrow> None | c # r \<Rightarrow> if p c then k r cs else None)"
| "rx_m n (Star p) s cs k = star_greedy p s (\<lambda>r. k r cs)"
| "rx_m n (LazyStar p) s cs k = star_lazy p s (\<lambda>r. k r cs)"
| "rx_m n (Seq a b) s cs k = rx_m n a s cs (\<lambda>r cs'. rx_m n b r cs' k)"
| "rx_m n (Alt a b) s cs k =
     (case rx_m n a s cs k of Some x \<Rightarrow> Some x | None \<Rightarrow> rx_m n b s cs k)"
| "rx_m n (Opt a) s cs k =
     (case rx_m n a s cs k of Some x \<Rightarrow> Some x | None \<Rightarrow> k s cs)"
| "rx_m n (Grp i a) s cs k =
     rx_m n a s cs (\<lambda>r cs'. k r ((i, take (length s - length r) s) # cs'))"
| "rx_m n Bol s cs k = (if length s = n then k s cs else None)"
| "rx_m n Eol s cs k = (if s = [] then k s cs else None)"

text \<open>One attempt at the current position: the rest after the match, and the captures.\<close>

definition rx_at :: "nat \<Rightarrow> rx \<Rightarrow> string \<Rightarrow> (string \<times> caps) option" where
  "rx_at n r s = rx_m n r s [] (\<lambda>rest cs. Some (rest, cs))"

text \<open>
  \<^verbatim>\<open>exec\<close>: the leftmost position at which the pattern matches. The result is the
  input from the start of the match, the rest after it, and the captures.
\<close>

fun rx_search :: "nat \<Rightarrow> rx \<Rightarrow> string \<Rightarrow> (string \<times> string \<times> caps) option" where
  "rx_search n r [] = (case rx_at n r [] of None \<Rightarrow> None | Some (rest, cs) \<Rightarrow> Some ([], rest, cs))"
| "rx_search n r (c # t) =
     (case rx_at n r (c # t) of
        None \<Rightarrow> rx_search n r t
      | Some (rest, cs) \<Rightarrow> Some (c # t, rest, cs))"

definition rx_exec :: "rx \<Rightarrow> string \<Rightarrow> (string \<times> caps) option" where
  "rx_exec r s =
     (case rx_search (length s) r s of
        None \<Rightarrow> None
      | Some (from, rest, cs) \<Rightarrow> Some (take (length from - length rest) from, cs))"

definition rx_test :: "rx \<Rightarrow> string \<Rightarrow> bool" where
  "rx_test r s \<longleftrightarrow> rx_exec r s \<noteq> None"

text \<open>
  \<^verbatim>\<open>str.replace(re, ...)\<close> with a global pattern: every match, left to right, each
  search starting where the last match ended (one character further after an empty
  match). \<open>skip\<close> counts the characters of the last match still to pass over.
\<close>

fun rx_replace :: "nat \<Rightarrow> rx \<Rightarrow> (caps \<Rightarrow> string) \<Rightarrow> nat \<Rightarrow> string \<Rightarrow> string" where
  "rx_replace n r f skip [] =
     (if skip = 0 then (case rx_at n r [] of None \<Rightarrow> [] | Some (rest, cs) \<Rightarrow> f cs) else [])"
| "rx_replace n r f skip (c # t) =
     (if 0 < skip then rx_replace n r f (skip - 1) t
      else case rx_at n r (c # t) of
             None \<Rightarrow> c # rx_replace n r f 0 t
           | Some (rest, cs) \<Rightarrow>
               (let len = Suc (length t) - length rest
                in if len = 0 then f cs @ c # rx_replace n r f 0 t
                   else f cs @ rx_replace n r f (len - 1) t))"

definition replace_all :: "rx \<Rightarrow> (caps \<Rightarrow> string) \<Rightarrow> string \<Rightarrow> string" where
  "replace_all r f s = rx_replace (length s) r f 0 s"

text \<open>\<^verbatim>\<open>str.match(re)\<close> with a global pattern: the matched texts, \<open>None\<close> for \<^verbatim>\<open>null\<close>.\<close>

fun rx_matches :: "nat \<Rightarrow> rx \<Rightarrow> nat \<Rightarrow> string \<Rightarrow> string list" where
  "rx_matches n r skip [] =
     (if skip = 0 then (case rx_at n r [] of None \<Rightarrow> [] | Some (rest, cs) \<Rightarrow> [[]]) else [])"
| "rx_matches n r skip (c # t) =
     (if 0 < skip then rx_matches n r (skip - 1) t
      else case rx_at n r (c # t) of
             None \<Rightarrow> rx_matches n r 0 t
           | Some (rest, cs) \<Rightarrow>
               (let len = Suc (length t) - length rest
                in take len (c # t) # rx_matches n r (len - 1) t))"

definition match_all :: "rx \<Rightarrow> string \<Rightarrow> string list option" where
  "match_all r s = (case rx_matches (length s) r 0 s of [] \<Rightarrow> None | ms \<Rightarrow> Some ms)"

definition group :: "nat \<Rightarrow> caps \<Rightarrow> string option" where
  "group i cs = map_of cs i"

text \<open>In a replacement text, \<^verbatim>\<open>$i\<close> of a group that did not take part is empty.\<close>

definition group_text :: "nat \<Rightarrow> caps \<Rightarrow> string" where
  "group_text i cs = (case group i cs of None \<Rightarrow> [] | Some t \<Rightarrow> t)"

subsection \<open>The patterns of the source\<close>

text \<open>\<^verbatim>\<open>/\/\*\s*optional\s*\*\/\s*(.+?)(\s*[,)=])/ig\<close>\<close>

definition CONVERT_OPTIONAL :: rx where
  "CONVERT_OPTIONAL =
     Seq (Lit ''/*'') (Seq (Star is_space) (Seq (LitI ''optional'') (Seq (Star is_space)
       (Seq (Lit ''*/'') (Seq (Star is_space)
         (Seq (Grp 1 (Seq (Cls is_dot) (LazyStar is_dot)))
              (Grp 2 (Seq (Star is_space) (Cls (\<lambda>c. c \<in> set '',)=''))))))))))"

text \<open>\<^verbatim>\<open>/((\/\/.*$)|(\/\*[\s\S]*?\*\/))/g\<close>\<close>

definition STRIP_COMMENTS :: rx where
  "STRIP_COMMENTS =
     Grp 1 (Alt (Grp 2 (Seq (Lit ''//'') (Seq (Star is_dot) Eol)))
                (Grp 3 (Seq (Lit ''/*'') (Seq (LazyStar any_char) (Lit ''*/'')))))"

text \<open>\<^verbatim>\<open>/(?:\(([\s\S]*?)\)|(?:async )?([^)]*?)=>)/\<close>\<close>

definition ARGUMENTS :: rx where
  "ARGUMENTS =
     Alt (Seq (Lit ''('') (Seq (Grp 1 (LazyStar any_char)) (Lit '')'')))
         (Seq (Opt (Lit ''async '')) (Seq (Grp 2 (LazyStar (\<lambda>c. c \<noteq> CHR '')''))) (Lit ''=>'')))"

text \<open>\<^verbatim>\<open>/([^\s,]+)/g\<close>\<close>

definition ARGUMENT_NAMES :: rx where
  "ARGUMENT_NAMES =
     Grp 1 (Seq (Cls (\<lambda>c. \<not> is_space c \<and> c \<noteq> CHR '',''))
                (Star (\<lambda>c. \<not> is_space c \<and> c \<noteq> CHR '','')))"

text \<open>\<^verbatim>\<open>/^\s*class\s+/\<close>\<close>

definition IS_CLASS_REGEX :: rx where
  "IS_CLASS_REGEX =
     Seq Bol (Seq (Star is_space) (Seq (Lit ''class'') (Seq (Cls is_space) (Star is_space))))"

text \<open>\<^verbatim>\<open>/constructor\s*\([\s\S]*?\)/\<close>\<close>

definition CONSTRUCTOR_REGEX :: rx where
  "CONSTRUCTOR_REGEX =
     Seq (Lit ''constructor'') (Seq (Star is_space) (Seq (Lit ''('')
       (Seq (LazyStar any_char) (Lit '')''))))"

section \<open>The signature parser\<close>

definition unable_to_parse :: string where
  "unable_to_parse = ''Unable to parse arguments from function string.''"

text \<open>
  The text after the narrowing to the constructor, the conversion of
  \<^verbatim>\<open>/* optional */\<close> markers and the stripping of comments.
\<close>

definition prepare :: "string \<Rightarrow> string" where
  "prepare fnStr =
     replace_all STRIP_COMMENTS (\<lambda>cs. [])
       (replace_all CONVERT_OPTIONAL (\<lambda>cs. group_text 1 cs @ ''?'' @ group_text 2 cs) fnStr)"

definition parse_list :: "string \<Rightarrow> error + string list" where
  "parse_list fnStr =
     (case rx_exec ARGUMENTS (prepare fnStr) of
        None \<Rightarrow> Inl (Error unable_to_parse)
      | Some (m, cs) \<Rightarrow>
          (let argumentList = (case group 1 cs of Some a \<Rightarrow> a | None \<Rightarrow> group_text 2 cs)
           in case match_all ARGUMENT_NAMES argumentList of
                None \<Rightarrow> Inr []
              | Some names \<Rightarrow> Inr names))"

definition getArgumentsFromString :: "string \<Rightarrow> error + string list" where
  "getArgumentsFromString fnStr =
     (if rx_test IS_CLASS_REGEX fnStr then
        (case rx_exec CONSTRUCTOR_REGEX fnStr of
           None \<Rightarrow> Inr []
         | Some (constructorMatch, cs) \<Rightarrow> parse_list constructorMatch)
      else parse_list fnStr)"

definition getArguments :: "func \<Rightarrow> error + string list" where
  "getArguments fn =
     (case fn_inject fn of
        Some names \<Rightarrow> Inr names
      | None \<Rightarrow> getArgumentsFromString (fn_toString fn))"

section \<open>The dependency graph\<close>

text \<open>
  A node is the object literal stored in \<^verbatim>\<open>this._graph\<close>: \<^verbatim>\<open>register\<close> writes
  \<^verbatim>\<open>{factory, dependencyNames}\<close>, \<^verbatim>\<open>registerValue\<close> writes \<^verbatim>\<open>{value}\<close>, and
  \<^verbatim>\<open>_resolve\<close> adds \<^verbatim>\<open>value\<close> to a node of the first kind. A field is \<open>None\<close>
  when the object has no such property.
\<close>

record node =
  factory :: "func option"
  dependencyNames :: "string list option"
  node_value :: "val option"

text \<open>
  An invocation of the factory of the node under a name by \<^verbatim>\<open>_resolve\<close>, and how
  it ended.
\<close>

datatype invocation = Returned string | Threw string


text \<open>
  The state of one injector: the own properties of \<^verbatim>\<open>this._graph\<close> in insertion
  order. The entry under the key \<^verbatim>\<open>__proto__\<close>, if there is one, is not an own
  property: the assignment \<^verbatim>\<open>this._graph["__proto__"] = node\<close> makes the node the
  prototype of the graph object, and a read of that key returns the prototype.
  \<open>invocations\<close> is not a field of the source: it records, in order, every
  invocation of a factory by \<^verbatim>\<open>_resolve\<close>.
\<close>

record injector =
  graph :: "(string \<times> node) list"
  invocations :: "invocation list"

text \<open>
  \<^verbatim>\<open>this._graph\<close> is created as \<^verbatim>\<open>{}\<close>, so a read \<^verbatim>\<open>this._graph[name]\<close> of a
  name that is not an own property goes on along the prototype chain: to the node that
  a registration under \<^verbatim>\<open>__proto__\<close> has made the prototype, if there is one, and
  then to \<^verbatim>\<open>Object.prototype\<close>. The node has the properties \<^verbatim>\<open>factory\<close> (a
  function) and \<^verbatim>\<open>dependencyNames\<close> (an array), or \<^verbatim>\<open>value\<close>; the members of
  \<^verbatim>\<open>Object.prototype\<close> are functions and objects. What such a read finds is not a
  node: when it is truthy, it is an object (or a primitive) without the three
  properties of a node, and when it is falsy, \<^verbatim>\<open>_resolve\<close> and
  \<^verbatim>\<open>isRegistered\<close> treat it as nothing found.
\<close>

definition Object_prototype_names :: "string list" where
  "Object_prototype_names =
     [''constructor'', ''__defineGetter__'', ''__defineSetter__'', ''hasOwnProperty'',
      ''__lookupGetter__'', ''__lookupSetter__'', ''isPrototypeOf'', ''propertyIsEnumerable'',
      ''toString'', ''valueOf'', ''__proto__'', ''toLocaleString'']"

definition foreign_object :: node where
  "foreign_object = \<lparr>factory = None, dependencyNames = None, node_value = None\<rparr>"

text \<open>The read of \<open>name\<close> finds a truthy property of the node that is the prototype.\<close>

definition inherited :: "(string \<times> node) list \<Rightarrow> string \<Rightarrow> bool" where
  "inherited g name =
     (case map_of g ''__proto__'' of
        None \<Rightarrow> False
      | Some p \<Rightarrow>
          if name = ''factory'' then (case factory p of None \<Rightarrow> False | Some f \<Rightarrow> True)
          else if name = ''dependencyNames''
            then (case dependencyNames p of None \<Rightarrow> False | Some ds \<Rightarrow> True)
          else if name = ''value'' then (case node_value p of None \<Rightarrow> False | Some v \<Rightarrow> truthy v)
          else False)"

definition graph_get :: "(string \<times> node) list \<Rightarrow> string \<Rightarrow> node option" where
  "graph_get g name =
     (case map_of g name of
        Some n \<Rightarrow> Some n
      | None \<Rightarrow>
          if inherited g name \<or> name \<in> set Object_prototype_names then Some foreign_object
          else None)"

section \<open>The invocation adapter\<close>

text \<open>
  \<^verbatim>\<open>Injector._invokeFunction(fn, args)\<close>. \<open>None\<close> is an \<^verbatim>\<open>fn\<close> that is
  \<^verbatim>\<open>undefined\<close> or \<^verbatim>\<open>null\<close>: the first statement reads \<^verbatim>\<open>fn.toString\<close>, which
  raises a TypeError there, before the test \<^verbatim>\<open>else if (fn)\<close> is reached. A function
  object is truthy, so that test passes for every \<open>Some f\<close>.
\<close>

definition invokeFunction :: "func option \<Rightarrow> val list \<Rightarrow> error + val" where
  "invokeFunction fn args =
     (case fn of
        None \<Rightarrow> Inl TypeError
      | Some f \<Rightarrow>
          (let isClass = rx_test IS_CLASS_REGEX (fn_toString f)
           in if isClass then completion (fn_construct f args)
              else completion (fn_apply f args)))"

section \<open>Registration\<close>

text \<open>
  \<^verbatim>\<open>register\<close> and \<^verbatim>\<open>registerValue\<close> end with the assignment
  \<^verbatim>\<open>this._graph[name] = node\<close>. For the name \<^verbatim>\<open>__proto__\<close> the assignment
  replaces the prototype of the graph object by the node; the entry that is kept under
  that key is this prototype, which \<open>graph_get\<close> reads as such.
\<close>

definition register :: "injector \<Rightarrow> string \<Rightarrow> func \<Rightarrow> error + injector" where
  "register c name fn =
     (case getArguments fn of
        Inl e \<Rightarrow> Inl e
      | Inr args \<Rightarrow>
          Inr (c\<lparr>graph := AList.update name
                 \<lparr>factory = Some fn, dependencyNames = Some args, node_value = None\<rparr> (graph c)\<rparr>))"

definition registerValue :: "injector \<Rightarrow> string \<Rightarrow> val \<Rightarrow> injector" where
  "registerValue c name v =
     c\<lparr>graph := AList.update name
         \<lparr>factory = None, dependencyNames = None, node_value = Some v\<rparr> (graph c)\<rparr>"

text \<open>\<^verbatim>\<open>new Injector()\<close>, without an instance name.\<close>

definition Injector :: injector where
  "Injector = registerValue \<lparr>graph = [], invocations = []\<rparr> ''$injector'' Self"

definition isRegistered :: "injector \<Rightarrow> string \<Rightarrow> bool" where
  "isRegistered c name \<longleftrightarrow> graph_get (graph c) name \<noteq> None"

section \<open>Resolution\<close>

text \<open>\<^verbatim>\<open>s.substring(a, b)\<close>: both indices clamped to the length, swapped when \<open>b < a\<close>.\<close>

definition substring :: "string \<Rightarrow> nat \<Rightarrow> nat \<Rightarrow> string" where
  "substring s a b =
     (let a' = min a (length s); b' = min b (length s)
      in take (max a' b' - min a' b') (drop (min a' b') s))"

fun join :: "string \<Rightarrow> string list \<Rightarrow> string" where
  "join sep [] = []"
| "join sep [x] = x"
| "join sep (x # y # ys) = x @ sep @ join sep (y # ys)"

definition not_found :: "string list \<Rightarrow> string \<Rightarrow> error" where
  "not_found previousNames name =
     Error (''Dependency not found: '' @ join '' -> '' previousNames @ '' -> '' @ name)"

definition circular :: "string list \<Rightarrow> error" where
  "circular currentNames = Error (''Circular dependency found: '' @ join '' -> '' currentNames)"

definition is_optional :: "string \<Rightarrow> bool" where
  "is_optional name \<longleftrightarrow> name \<noteq> [] \<and> last name = CHR ''?''"

definition node_name :: "string \<Rightarrow> string" where
  "node_name name = (if is_optional name then substring name 0 (length name - 1) else name)"

definition dep_names :: "(string \<times> node) list \<Rightarrow> string set" where
  "dep_names g = (\<Union>(k, n) \<in> set g. case dependencyNames n of None \<Rightarrow> {} | Some ds \<Rightarrow> set ds)"

text \<open>
  \<^verbatim>\<open>Injector.prototype._resolve(name, previousNames)\<close>, and the \<^verbatim>\<open>map\<close> over
  \<^verbatim>\<open>node.dependencyNames\<close> inside it (left to right, ended by the first exception).
  The injector is returned with every result, since the values stored by the calls
  that returned stay stored when a later one throws.
\<close>

function resolve_priv :: "injector \<Rightarrow> string \<Rightarrow> string list \<Rightarrow> (error + val) \<times> injector"
  and resolve_dependencies ::
    "injector \<Rightarrow> string list \<Rightarrow> string list \<Rightarrow> (error + val list) \<times> injector"
where
  "resolve_priv c name previousNames =
     (case graph_get (graph c) (node_name name) of
        None \<Rightarrow>
          if is_optional name then (Inr Undefined, c)
          else (Inl (not_found previousNames name), c)
      | Some node \<Rightarrow>
          (case node_value node of
             Some v \<Rightarrow> (Inr v, c)
           | None \<Rightarrow>
               if name \<in> set previousNames then (Inl (circular (previousNames @ [name])), c)
               else
                 (case dependencyNames node of
                    None \<Rightarrow> (Inl TypeError, c)
                  | Some deps \<Rightarrow>
                      (case resolve_dependencies c deps (previousNames @ [name]) of
                         (Inl e, c') \<Rightarrow> (Inl e, c')
                       | (Inr dependencies, c') \<Rightarrow>
                           (case invokeFunction (factory node) dependencies of
                              Inl e \<Rightarrow>
                                (Inl e,
                                 c'\<lparr>invocations := invocations c' @ [Threw (node_name name)]\<rparr>)
                            | Inr v \<Rightarrow>
                                (Inr v,
                                 c'\<lparr>graph := AList.update (node_name name)
                                       (node\<lparr>node_value := Some v\<rparr>) (graph c'),
                                     invocations :=
                                       invocations c' @ [Returned (node_name name)]\<rparr>))))))"
| "resolve_dependencies c [] currentNames = (Inr [], c)"
| "resolve_dependencies c (dependencyName # rest) currentNames =
     (case resolve_priv c dependencyName currentNames of
        (Inl e, c') \<Rightarrow> (Inl e, c')
      | (Inr v, c') \<Rightarrow>
          (case resolve_dependencies c' rest currentNames of
             (Inl e, c'') \<Rightarrow> (Inl e, c'')
           | (Inr vs, c'') \<Rightarrow> (Inr (v # vs), c'')))"
  by pat_completeness auto

text \<open>
  \<^verbatim>\<open>locals[name]\<close> on a plain object: an own property, else a member of
  \<^verbatim>\<open>Object.prototype\<close>, else \<^verbatim>\<open>undefined\<close>.
\<close>

type_synonym locals = "string \<Rightarrow> val option"

definition property_get :: "locals \<Rightarrow> string \<Rightarrow> val" where
  "property_get obj name =
     (case obj name of
        Some v \<Rightarrow> v
      | None \<Rightarrow> if name \<in> set Object_prototype_names then Builtin name else Undefined)"

definition strip_underscores :: "string \<Rightarrow> string" where
  "strip_underscores name =
     (if name \<noteq> [] \<and> hd name = CHR ''_'' \<and> last name = CHR ''_''
      then substring name 1 (length name - 1) else name)"

text \<open>The callback of \<^verbatim>\<open>names.map\<close> in \<^verbatim>\<open>resolve\<close>.\<close>

definition resolve_name ::
  "injector \<Rightarrow> locals option \<Rightarrow> string list \<Rightarrow> string \<Rightarrow> (error + val) \<times> injector" where
  "resolve_name c locals previousNames name0 =
     (let name = strip_underscores name0
      in case locals of
           None \<Rightarrow> resolve_priv c name previousNames
         | Some l \<Rightarrow>
             if truthy (property_get l name) then (Inr (property_get l name), c)
             else resolve_priv c name previousNames)"

fun resolve_names ::
  "injector \<Rightarrow> locals option \<Rightarrow> string list \<Rightarrow> string list \<Rightarrow> (error + val list) \<times> injector"
where
  "resolve_names c locals previousNames [] = (Inr [], c)"
| "resolve_names c locals previousNames (name # names) =
     (case resolve_name c locals previousNames name of
        (Inl e, c') \<Rightarrow> (Inl e, c')
      | (Inr v, c') \<Rightarrow>
          (case resolve_names c' locals previousNames names of
             (Inl e, c'') \<Rightarrow> (Inl e, c'')
           | (Inr vs, c'') \<Rightarrow> (Inr (v # vs), c'')))"

text \<open>
  The two ways of calling the overloaded \<^verbatim>\<open>resolve\<close>: with a function
  (\<^verbatim>\<open>fn, locals, context\<close>) or with a name or an array of names
  (\<^verbatim>\<open>names, context\<close>). An omitted argument is \<open>None\<close>.
\<close>

datatype resolve_args =
    WithFunction func "locals option" "string option"
  | WithName string "string option"
  | WithNames "string list" "string option"

datatype resolved = One val | Many "val list"

definition initial_chain :: "string option \<Rightarrow> string list" where
  "initial_chain context = (case context of None \<Rightarrow> [] | Some s \<Rightarrow> if s \<noteq> [] then [s] else [])"

fun resolve :: "injector \<Rightarrow> resolve_args \<Rightarrow> (error + resolved) \<times> injector" where
  "resolve c (WithFunction fn locals context) =
     (case getArguments fn of
        Inl e \<Rightarrow> (Inl e, c)
      | Inr names \<Rightarrow>
          (case resolve_names c locals (initial_chain context) names of
             (Inl e, c') \<Rightarrow> (Inl e, c')
           | (Inr dependencies, c') \<Rightarrow>
               (case invokeFunction (Some fn) dependencies of
                  Inl e \<Rightarrow> (Inl e, c')
                | Inr v \<Rightarrow> (Inr (One v), c'))))"
| "resolve c (WithName name context) =
     (case resolve_names c None (initial_chain context) [name] of
        (Inl e, c') \<Rightarrow> (Inl e, c')
      | (Inr dependencies, c') \<Rightarrow>
          (Inr (One (case dependencies of [] \<Rightarrow> Undefined | v # vs \<Rightarrow> v)), c'))"
| "resolve c (WithNames names context) =
     (case resolve_names c None (initial_chain context) names of
        (Inl e, c') \<Rightarrow> (Inl e, c')
      | (Inr dependencies, c') \<Rightarrow> (Inr (Many dependencies), c'))"


section \<open>Invariants of the resolution\<close>





text \<open>The node under \<open>k\<close> holds a value.\<close>

definition resolved :: "injector \<Rightarrow> string \<Rightarrow> bool" where
  "resolved c k \<longleftrightarrow> (\<exists>nd v. map_of (graph c) k = Some nd \<and> node_value nd = Some v)"





text \<open>The start of the message of a circular dependency error.\<close>

definition circular_prefix :: string where
  "circular_prefix = ''Circular dependency found: ''"

text \<open>\<open>m\<close> renders a chain that extends \<open>prev\<close> by names as written, without
  repetition up to its last name, which repeats an earlier one.\<close>

definition repeats_once :: "string list \<Rightarrow> string \<Rightarrow> bool" where
  "repeats_once prev m \<longleftrightarrow>
     (\<exists>ch x. m = join '' -> '' (prev @ ch @ [x]) \<and> distinct (prev @ ch) \<and> x \<in> set (prev @ ch))"

section \<open>The locals of a call\<close>

text \<open>The parameter name \<open>a\<close> of the function passed to \<^verbatim>\<open>resolve\<close> has a truthy
  local: \<^verbatim>\<open>locals[name]\<close>, read with the name without its wrapping underscores and
  with its optionality marker, if it has one.\<close>

definition overridden :: "locals \<Rightarrow> string \<Rightarrow> bool" where
  "overridden l a \<longleftrightarrow> truthy (property_get l (strip_underscores a))"

text \<open>The argument list for the parameter names \<open>names\<close>: the local of a name that has
  a truthy one, and for the other names, in order, the values \<open>vs\<close>.\<close>

fun splice :: "locals \<Rightarrow> string list \<Rightarrow> val list \<Rightarrow> val list" where
  "splice l [] vs = []"
| "splice l (a # names) vs =
     (if overridden l a then property_get l (strip_underscores a) # splice l names vs
      else (case vs of [] \<Rightarrow> [] | v # vs' \<Rightarrow> v # splice l names vs'))"

section \<open>What the patterns accept\<close>

text \<open>The text holds an opening parenthesis with a closing one somewhere after it.\<close>

definition has_parameter_list :: "string \<Rightarrow> bool" where
  "has_parameter_list t \<longleftrightarrow> (\<exists>a b. t = a @ CHR ''('' # b \<and> CHR '')'' \<in> set b)"

text \<open>The text holds the arrow \<^verbatim>\<open>=>\<close>.\<close>

definition has_arrow :: "string \<Rightarrow> bool" where
  "has_arrow t \<longleftrightarrow> (\<exists>a b. t = a @ ''=>'' @ b)"

text \<open>The text in which the parameter list is looked for: the match of
  \<^verbatim>\<open>CONSTRUCTOR_REGEX\<close> for a class (none when it finds nothing), the whole text
  otherwise.\<close>

definition searched :: "string \<Rightarrow> string option" where
  "searched fnStr =
     (if rx_test IS_CLASS_REGEX fnStr then map_option fst (rx_exec CONSTRUCTOR_REGEX fnStr)
      else Some fnStr)"

text \<open>The pattern matches at the front of \<open>s\<close> in some way that leaves a rest satisfying
  \<open>P\<close>: what the matcher tries, without the captures and the order of the tries.\<close>

definition matches_to :: "nat \<Rightarrow> rx \<Rightarrow> string \<Rightarrow> (string \<Rightarrow> bool) \<Rightarrow> bool" where
  "matches_to n a s P \<longleftrightarrow> rx_m n a s [] (\<lambda>r cs. if P r then Some r else None) \<noteq> None"

text \<open>An arrow follows at the front of \<open>s\<close> after characters other than \<^verbatim>\<open>)\<close>.\<close>

definition arrow_at :: "string \<Rightarrow> bool" where
  "arrow_at s \<longleftrightarrow>
     (\<exists>i \<le> length (takeWhile (\<lambda>c. c \<noteq> CHR '')'') s). \<exists>b. drop i s = ''=>'' @ b)"

text \<open>\<open>w\<close> occurs in \<open>s\<close>.\<close>

definition contains :: "string \<Rightarrow> string \<Rightarrow> bool" where
  "contains w s \<longleftrightarrow> (\<exists>a b. s = a @ w @ b)"

section \<open>Example providers\<close>

text \<open>A plain function with the given source text and behaviour.\<close>

definition function_text :: "string \<Rightarrow> (val list \<Rightarrow> outcome) \<Rightarrow> func" where
  "function_text src body =
     \<lparr>fn_inject = None, fn_toString = src, fn_apply = body,
      fn_construct = (\<lambda>args. Returns (Obj 0))\<rparr>"

definition first_argument :: "val list \<Rightarrow> outcome" where
  "first_argument args = Returns (case args of [] \<Rightarrow> Undefined | v # vs \<Rightarrow> v)"

definition registered :: "error + injector \<Rightarrow> string \<Rightarrow> func \<Rightarrow> error + injector" where
  "registered r name fn = (case r of Inl e \<Rightarrow> Inl e | Inr c \<Rightarrow> register c name fn)"

definition the_injector :: "error + injector \<Rightarrow> injector" where
  "the_injector r = (case r of Inl e \<Rightarrow> Injector | Inr c \<Rightarrow> c)"

text \<open>\<^verbatim>\<open>register("A", function (B) { return 1; }); register("B", function (A) { return 2; })\<close>\<close>

definition fn_A :: func where
  "fn_A = function_text ''function (B) { return 1; }'' (\<lambda>args. Returns (Num 1))"

definition fn_B :: func where
  "fn_B = function_text ''function (A) { return 2; }'' (\<lambda>args. Returns (Num 2))"

definition injector_AB :: injector where
  "injector_AB = the_injector (registered (register Injector ''A'' fn_A) ''B'' fn_B)"




text \<open>
  \<^verbatim>\<open>registerValue("a", 1); register("outer", function (a) { return a; })\<close>, and the
  function \<^verbatim>\<open>function (outer) { return outer; }\<close> to resolve.
\<close>

definition fn_a :: func where
  "fn_a = function_text ''function (a) { return a; }'' first_argument"

definition fn_outer :: func where
  "fn_outer = function_text ''function (outer) { return outer; }'' first_argument"

definition injector_a :: injector where
  "injector_a = registerValue Injector ''a'' (Num 1)"

definition injector_nested :: injector where
  "injector_nested = the_injector (register injector_a ''outer'' fn_a)"

text \<open>
  The functions \<^verbatim>\<open>function (/* optional */ a) { return a; }\<close> and
  \<^verbatim>\<open>function (outer, /* optional */ a) { return outer === 7 && a === 1; }\<close> to
  resolve.
\<close>

definition fn_opt :: func where
  "fn_opt = function_text ''function (/* optional */ a) { return a; }'' first_argument"

definition argument :: "nat \<Rightarrow> val list \<Rightarrow> val" where
  "argument i args = (if i < length args then args ! i else Undefined)"

definition fn_pair :: func where
  "fn_pair =
     function_text ''function (outer, /* optional */ a) { return outer === 7 && a === 1; }''
       (\<lambda>args. Returns (Bool (argument 0 args = Num 7 \<and> argument 1 args = Num 1)))"




text \<open>\<^verbatim>\<open>register("A", function (/* optional */ A) { return 1; })\<close>\<close>

definition fn_self :: func where
  "fn_self = function_text ''function (/* optional */ A) { return 1; }'' (\<lambda>args. Returns (Num 1))"

definition injector_self :: injector where
  "injector_self = the_injector (register Injector ''A'' fn_self)"



text \<open>A class without a constructor, and one whose parameter list holds a line comment.\<close>

definition class_plain :: string where
  "class_plain = ''class A { }''"

definition class_commented :: string where
  "class_commented = ''class A { constructor(//)'' @ [CHR 0x0A] @ '' a) {} }''"

section \<open>Termination of the resolution\<close>

text \<open>
  Termination: the chain grows by a name that was not in it, and every name it can
  grow by, after the first, is a dependency name of some node of the (finite) graph.
  The nodes stored by a call keep their dependency names.
\<close>

lemma dep_names_update: "dep_names (AList.update k n g) \<subseteq> dep_names g \<union> (case dependencyNames n of None \<Rightarrow> {} | Some ds \<Rightarrow> set ds)"
  by (induction g) (auto simp: dep_names_def split: option.splits if_splits)

lemma graph_get_deps: "graph_get g k = Some n \<Longrightarrow> dependencyNames n = Some ds \<Longrightarrow> set ds \<subseteq> dep_names g"
  by (auto simp: graph_get_def dep_names_def foreign_object_def split: option.splits if_splits dest!: map_of_SomeD)

lemma dep_names_memo:
  assumes "graph_get g k = Some n" and "dep_names g' \<subseteq> dep_names g"
  shows "dep_names (AList.update k (n\<lparr>node_value := Some v\<rparr>) g') \<subseteq> dep_names g"
proof -
  have "(case dependencyNames (n\<lparr>node_value := Some v\<rparr>) of None \<Rightarrow> {} | Some ds \<Rightarrow> set ds) \<subseteq> dep_names g"
    using assms(1) graph_get_deps [of g k n] by (cases "dependencyNames n") auto
  with dep_names_update [of k "n\<lparr>node_value := Some v\<rparr>" g'] assms(2) show ?thesis by blast
qed

lemma dom_dep_names:
  "resolve_priv_resolve_dependencies_dom (Inl (c, name, prev)) \<Longrightarrow>
     dep_names (graph (snd (resolve_priv c name prev))) \<subseteq> dep_names (graph c)"
  "resolve_priv_resolve_dependencies_dom (Inr (c, ds, cur)) \<Longrightarrow>
     dep_names (graph (snd (resolve_dependencies c ds cur))) \<subseteq> dep_names (graph c)"
proof (induction c name prev and c ds cur rule: resolve_priv_resolve_dependencies.pinduct)
  case (1 c name previousNames)
  note dom = 1(1) and IH = 1(2)
  show ?case
  proof (cases "graph_get (graph c) (node_name name)")
    case None
    then show ?thesis using dom by (simp add: resolve_priv.psimps)
  next
    case (Some node)
    show ?thesis
    proof (cases "node_value node = None \<and> name \<notin> set previousNames \<and> dependencyNames node \<noteq> None")
      case False
      then show ?thesis using dom Some
        by (auto simp: resolve_priv.psimps split: option.splits)
    next
      case True
      then obtain deps where deps: "dependencyNames node = Some deps" by auto
      obtain r c' where rd: "resolve_dependencies c deps (previousNames @ [name]) = (r, c')"
        by (cases "resolve_dependencies c deps (previousNames @ [name])")
      have sub: "dep_names (graph c') \<subseteq> dep_names (graph c)"
        using IH [OF Some _ _ deps] True rd by simp
      show ?thesis
        using dom Some True deps rd sub dep_names_memo [OF Some sub]
        by (auto simp: resolve_priv.psimps split: sum.splits)
    qed
  qed
next
  case (2 c currentNames)
  then show ?case by (simp add: resolve_dependencies.psimps)
next
  case (3 c dependencyName rest currentNames)
  note dom = 3(1) and IH1 = 3(2) and IH2 = 3(3)
  obtain r c' where r: "resolve_priv c dependencyName currentNames = (r, c')"
    by (cases "resolve_priv c dependencyName currentNames")
  have sub1: "dep_names (graph c') \<subseteq> dep_names (graph c)"
    using IH1 r by simp
  show ?case
  proof (cases r)
    case (Inl e)
    then show ?thesis using dom r sub1 by (simp add: resolve_dependencies.psimps)
  next
    case (Inr v)
    have "dep_names (graph (snd (resolve_dependencies c' rest currentNames))) \<subseteq> dep_names (graph c')"
      using IH2 [OF r [symmetric] Inr] .
    then show ?thesis using dom r Inr sub1
      by (auto simp: resolve_dependencies.psimps split: prod.splits sum.splits)
  qed
qed

termination resolve_priv
proof (relation "inv_image (less_than <*lex*> less_than)
    (\<lambda>x. case x of
       Inl (c, name, prev) \<Rightarrow> (card ((dep_names (graph c) \<union> {name}) - set prev), 0::nat)
     | Inr (c, ds, cur) \<Rightarrow> (card ((dep_names (graph c) \<union> set ds) - set cur), Suc (length ds)))", goal_cases)
  case 1
  then show ?case by (intro wf_inv_image wf_lex_prod wf_less_than)
next
  case (2 c name previousNames node deps)
  have fin: "finite (dep_names (graph c))"
    by (auto simp: dep_names_def split: option.splits)
  have sub: "set deps \<subseteq> dep_names (graph c)"
    using 2 graph_get_deps by blast
  have "(dep_names (graph c) \<union> set deps) - set (previousNames @ [name])
        \<subset> (dep_names (graph c) \<union> {name}) - set previousNames"
    using 2(3) sub by auto
  then have "card ((dep_names (graph c) \<union> set deps) - set (previousNames @ [name]))
        < card ((dep_names (graph c) \<union> {name}) - set previousNames)"
    using fin by (intro psubset_card_mono) auto
  then show ?case by simp
next
  case (3 c dependencyName rest currentNames)
  have fin: "finite (dep_names (graph c))"
    by (auto simp: dep_names_def split: option.splits)
  have "card ((dep_names (graph c) \<union> {dependencyName}) - set currentNames)
       \<le> card ((dep_names (graph c) \<union> set (dependencyName # rest)) - set currentNames)"
    using fin by (intro card_mono) auto
  then show ?case by auto
next
  case (4 c dependencyName rest currentNames x y b)
  have fin: "finite (dep_names (graph c))"
    by (auto simp: dep_names_def split: option.splits)
  have "dep_names (graph y) \<subseteq> dep_names (graph c)"
    using dom_dep_names(1) [OF 4(3)] 4(1) by (metis snd_conv)
  then have "card ((dep_names (graph y) \<union> set rest) - set currentNames)
       \<le> card ((dep_names (graph c) \<union> set (dependencyName # rest)) - set currentNames)"
    using fin by (intro card_mono) auto
  then show ?case by auto
qed


declare resolve_priv.simps [simp del]

section \<open>Basic facts\<close>

lemma graph_get_own: "map_of g k = Some n \<Longrightarrow> graph_get g k = Some n"
  by (simp add: graph_get_def)

lemma node_name_plain: "\<not> is_optional name \<Longrightarrow> node_name name = name"
  by (simp add: node_name_def)

text \<open>
  In a graph whose prototype has not been replaced, the names that
  \<^verbatim>\<open>Object.prototype\<close> does not define behave as keys of a dictionary: the read of
  the graph finds a node exactly when one is stored, \<^verbatim>\<open>isRegistered\<close> says so, and
  \<^verbatim>\<open>_resolve\<close> of a name without a node returns \<^verbatim>\<open>undefined\<close> for an optional
  name and throws the not-found error otherwise.
\<close>

lemma graph_get_None:
  "graph_get g k = None \<longleftrightarrow>
     map_of g k = None \<and> k \<notin> set Object_prototype_names \<and> \<not> inherited g k"
  by (auto simp: graph_get_def split: option.splits)

lemma inherited_plain: "map_of g ''__proto__'' = None \<Longrightarrow> \<not> inherited g k"
  by (simp add: inherited_def)

lemma isRegistered_own:
  assumes "map_of (graph c) ''__proto__'' = None" and "name \<notin> set Object_prototype_names"
  shows "isRegistered c name \<longleftrightarrow> map_of (graph c) name \<noteq> None"
  using assms by (simp add: isRegistered_def graph_get_None inherited_plain)

lemma resolve_priv_missing:
  assumes "map_of (graph c) ''__proto__'' = None"
    and "map_of (graph c) (node_name name) = None"
    and "node_name name \<notin> set Object_prototype_names"
  shows "resolve_priv c name prev =
     (if is_optional name then (Inr Undefined, c) else (Inl (not_found prev name), c))"
proof -
  have "graph_get (graph c) (node_name name) = None"
    using assms by (simp add: graph_get_None inherited_plain)
  then show ?thesis by (subst resolve_priv.simps) simp
qed

lemma map_of_register:
  "register c name fn = Inr c' \<Longrightarrow>
     \<exists>args. getArguments fn = Inr args \<and>
       map_of (graph c') = (map_of (graph c))(name \<mapsto>
         \<lparr>factory = Some fn, dependencyNames = Some args, node_value = None\<rparr>)"
  by (auto simp: register_def update_conv' split: sum.splits)

lemma resolve_priv_cycle:
  assumes "graph_get (graph c) (node_name name) = Some n" and "node_value n = None"
    and "name \<in> set previousNames"
  shows "resolve_priv c name previousNames = (Inl (circular (previousNames @ [name])), c)"
  using assms by (subst resolve_priv.simps) simp

lemma resolve_priv_enter:
  assumes "graph_get (graph c) (node_name name) = Some n" and "node_value n = None"
    and "name \<notin> set previousNames" and "dependencyNames n = Some deps"
    and "resolve_dependencies c deps (previousNames @ [name]) = (Inl e, c')"
  shows "resolve_priv c name previousNames = (Inl e, c')"
  using assms by (subst resolve_priv.simps) simp

lemma resolve_names_plain:
  "resolve_names c None prev names = resolve_dependencies c (map strip_underscores names) prev"
proof (induction names arbitrary: c)
  case Nil
  show ?case by simp
next
  case (Cons a names)
  have "resolve_name c None prev a = resolve_priv c (strip_underscores a) prev"
    by (simp add: resolve_name_def)
  then show ?case using Cons.IH by (simp split: prod.splits sum.splits)
qed

lemma resolve_names_splice:
  "resolve_names c (Some l) prev names =
     (case resolve_names c None prev (filter (\<lambda>a. \<not> overridden l a) names) of
        (Inl e, c') \<Rightarrow> (Inl e, c')
      | (Inr vs, c') \<Rightarrow> (Inr (splice l names vs), c'))"
proof (induction names arbitrary: c)
  case Nil
  show ?case by simp
next
  case (Cons a names)
  show ?case
  proof (cases "overridden l a")
    case True
    then have "resolve_name c (Some l) prev a = (Inr (property_get l (strip_underscores a)), c)"
      by (simp add: resolve_name_def overridden_def)
    then show ?thesis
      using True Cons.IH [of c] by (simp split: prod.splits sum.splits)
  next
    case False
    then have eq: "resolve_name c (Some l) prev a = resolve_name c None prev a"
      by (simp add: resolve_name_def overridden_def)
    obtain r c1 where r: "resolve_name c None prev a = (r, c1)"
      by (cases "resolve_name c None prev a")
    show ?thesis
    proof (cases r)
      case (Inl e)
      then show ?thesis using False eq r by simp
    next
      case (Inr v)
      then show ?thesis
        using False eq r Cons.IH [of c1] by (simp split: prod.splits sum.splits)
    qed
  qed
qed

lemma splice_all:
  "\<forall>a \<in> set names. overridden l a \<Longrightarrow>
     splice l names vs = map (\<lambda>a. property_get l (strip_underscores a)) names"
  by (induction names) simp_all


section \<open>The chain of a circular dependency error\<close>

lemma not_found_not_circular: "not_found prev name \<noteq> Error (circular_prefix @ m)"
  by (simp add: not_found_def circular_prefix_def)

lemma circular_eq: "circular xs = Error (circular_prefix @ m) \<longleftrightarrow> m = join '' -> '' xs"
  by (auto simp: circular_def circular_prefix_def)

lemma invoke_not_Error: "invokeFunction f args \<noteq> Inl (Error m)"
  by (auto simp: invokeFunction_def completion_def Let_def split: option.splits outcome.splits)

lemma chain_invariant:
  "distinct prev \<Longrightarrow> fst (resolve_priv c name prev) = Inl (Error (circular_prefix @ m)) \<Longrightarrow>
     repeats_once prev m"
  "distinct cur \<Longrightarrow> fst (resolve_dependencies c ds cur) = Inl (Error (circular_prefix @ m)) \<Longrightarrow>
     repeats_once cur m"
proof (induction c name prev and c ds cur rule: resolve_priv_resolve_dependencies.induct)
  case (1 c name previousNames)
  note IH = 1(1) and dist = 1(2) and res = 1(3)
  show ?case
  proof (cases "graph_get (graph c) (node_name name)")
    case None
    then show ?thesis using res not_found_not_circular
      by (subst (asm) resolve_priv.simps) (auto split: if_splits)
  next
    case (Some node)
    show ?thesis
    proof (cases "node_value node")
      case (Some v)
      then show ?thesis using res \<open>graph_get (graph c) (node_name name) = Some node\<close>
        by (subst (asm) resolve_priv.simps) simp
    next
      case None
      note nv = None
      show ?thesis
      proof (cases "name \<in> set previousNames")
        case True
        then have "m = join '' -> '' (previousNames @ [name])"
          using res Some nv circular_eq
          by (subst (asm) resolve_priv.simps) simp
        then show ?thesis using True dist
          unfolding repeats_once_def by (intro exI [of _ "[]"] exI [of _ name]) simp
      next
        case False
        show ?thesis
        proof (cases "dependencyNames node")
          case None
          then show ?thesis using res Some nv False
            by (subst (asm) resolve_priv.simps) simp
        next
          case (Some deps)
          obtain r c' where rd: "resolve_dependencies c deps (previousNames @ [name]) = (r, c')"
            by (cases "resolve_dependencies c deps (previousNames @ [name])")
          have "r = Inl (Error (circular_prefix @ m))"
            using res \<open>graph_get (graph c) (node_name name) = Some node\<close> nv False Some rd
              invoke_not_Error
            by (subst (asm) resolve_priv.simps) (auto split: sum.splits)
          then have "repeats_once (previousNames @ [name]) m"
            using IH [OF \<open>graph_get (graph c) (node_name name) = Some node\<close> nv False Some] rd dist False
            by simp
          then obtain ch x where "m = join '' -> '' ((previousNames @ [name]) @ ch @ [x])"
            "distinct ((previousNames @ [name]) @ ch)" "x \<in> set ((previousNames @ [name]) @ ch)"
            unfolding repeats_once_def by blast
          then show ?thesis unfolding repeats_once_def
            by (intro exI [of _ "name # ch"] exI [of _ x]) simp
        qed
      qed
    qed
  qed
next
  case (2 c currentNames)
  then show ?case by simp
next
  case (3 c dependencyName rest currentNames)
  note IH1 = 3(1) and IH2 = 3(2) and dist = 3(3) and res = 3(4)
  obtain r c' where r: "resolve_priv c dependencyName currentNames = (r, c')"
    by (cases "resolve_priv c dependencyName currentNames")
  show ?case
  proof (cases r)
    case (Inl e)
    then show ?thesis using IH1 [OF dist] r res by simp
  next
    case (Inr v)
    then show ?thesis using IH2 [OF r [symmetric] Inr dist] r res
      by (auto split: prod.splits sum.splits)
  qed
qed

section \<open>Memoization\<close>
































section \<open>The matcher and the parameter list\<close>

lemma star_lazy_None:
  "star_lazy p s k = None \<longleftrightarrow> (\<forall>i \<le> length (takeWhile p s). k (drop i s) = None)"
proof (induction s)
  case Nil
  show ?case by simp
next
  case (Cons c cs)
  have "(\<forall>i \<le> length (takeWhile p (c # cs)). k (drop i (c # cs)) = None) \<longleftrightarrow>
      k (c # cs) = None \<and> (p c \<longrightarrow> (\<forall>i \<le> length (takeWhile p cs). k (drop i cs) = None))"
  proof (cases "p c")
    case True
    have "(\<forall>i \<le> Suc (length (takeWhile p cs)). k (drop i (c # cs)) = None) \<longleftrightarrow>
        k (c # cs) = None \<and> (\<forall>i \<le> length (takeWhile p cs). k (drop i cs) = None)"
      (is "?L \<longleftrightarrow> ?R")
    proof
      assume l: ?L
      have "k (c # cs) = None" using l [rule_format, of 0] by simp
      moreover have "k (drop i cs) = None" if "i \<le> length (takeWhile p cs)" for i
        using l [rule_format, of "Suc i"] that by simp
      ultimately show ?R by simp
    next
      assume r: ?R
      show ?L
      proof (intro allI impI)
        fix i assume "i \<le> Suc (length (takeWhile p cs))"
        then show "k (drop i (c # cs)) = None" using r by (cases i) simp_all
      qed
    qed
    then show ?thesis using True by simp
  next
    case False
    then show ?thesis by simp
  qed
  then show ?case using Cons.IH by (simp split: option.splits)
qed

lemma rx_search_None:
  "rx_search n r s = None \<longleftrightarrow> (\<forall>a sfx. s = a @ sfx \<longrightarrow> rx_at n r sfx = None)"
proof (induction s)
  case Nil
  show ?case by (auto split: option.splits)
next
  case (Cons c t)
  have "(\<forall>a sfx. c # t = a @ sfx \<longrightarrow> rx_at n r sfx = None) \<longleftrightarrow>
      rx_at n r (c # t) = None \<and> (\<forall>a sfx. t = a @ sfx \<longrightarrow> rx_at n r sfx = None)"
    (is "?L \<longleftrightarrow> ?R")
  proof
    assume l: ?L
    have "rx_at n r (c # t) = None" using l [rule_format, of "[]" "c # t"] by simp
    moreover have "rx_at n r sfx = None" if "t = a @ sfx" for a sfx
      using l [rule_format, of "c # a" sfx] that by simp
    ultimately show ?R by blast
  next
    assume r: ?R
    show ?L
    proof (intro allI impI)
      fix a sfx assume "c # t = a @ sfx"
      then show "rx_at n r sfx = None" using r by (cases a) auto
    qed
  qed
  then show ?case using Cons.IH by (auto split: option.splits)
qed

lemma lit_Some: "lit l s = Some r \<longleftrightarrow> s = l @ r"
  by (induction l s rule: lit.induct) auto

lemma lit_None: "lit l s = None \<longleftrightarrow> (\<forall>r. s \<noteq> l @ r)"
  using lit_Some [of l s] by (cases "lit l s") auto

lemma star_greedy_None:
  "star_greedy p s k = None \<longleftrightarrow> (\<forall>i \<le> length (takeWhile p s). k (drop i s) = None)"
proof (induction s)
  case Nil
  show ?case by simp
next
  case (Cons c cs)
  show ?case
  proof (cases "p c")
    case False
    then show ?thesis by simp
  next
    case True
    have "(\<forall>i \<le> Suc (length (takeWhile p cs)). k (drop i (c # cs)) = None) \<longleftrightarrow>
        k (c # cs) = None \<and> (\<forall>i \<le> length (takeWhile p cs). k (drop i cs) = None)"
      (is "?L \<longleftrightarrow> ?R")
    proof
      assume l: ?L
      have "k (c # cs) = None" using l [rule_format, of 0] by simp
      moreover have "k (drop i cs) = None" if "i \<le> length (takeWhile p cs)" for i
        using l [rule_format, of "Suc i"] that by simp
      ultimately show ?R by simp
    next
      assume r: ?R
      show ?L
      proof (intro allI impI)
        fix i assume "i \<le> Suc (length (takeWhile p cs))"
        then show "k (drop i (c # cs)) = None" using r by (cases i) simp_all
      qed
    qed
    then show ?thesis using True Cons.IH by (auto split: option.splits)
  qed
qed

lemma rx_m_None_cong:
  fixes k :: "string \<Rightarrow> caps \<Rightarrow> 'a option" and k' :: "string \<Rightarrow> caps \<Rightarrow> 'b option"
  assumes "\<And>r c1 c2. (k r c1 = None) = (k' r c2 = None)"
  shows "(rx_m n a s cs k = None) = (rx_m n a s cs' k' = None)"
  using assms
proof (induction a arbitrary: s cs cs' k k')
  case (Lit l)
  then show ?case by (cases "lit l s") simp_all
next
  case (LitI l)
  then show ?case by (cases "lit_i l s") simp_all
next
  case (Cls p)
  then show ?case by (cases s) simp_all
next
  case (Star p)
  show ?case by (simp add: star_greedy_None Star.prems [of _ cs cs'])
next
  case (LazyStar p)
  show ?case by (simp add: star_lazy_None LazyStar.prems [of _ cs cs'])
next
  case (Seq a b)
  have "(rx_m n b r c1 k = None) = (rx_m n b r c2 k' = None)" for r c1 c2
    using Seq.IH(2) [of k k' r c1 c2] Seq.prems by simp
  then show ?case
    using Seq.IH(1) [of "\<lambda>r cs'. rx_m n b r cs' k" "\<lambda>r cs'. rx_m n b r cs' k'" s cs cs']
    by simp
next
  case (Alt a b)
  have 1: "(rx_m n (Alt a b) s cs k = None) = (rx_m n a s cs k = None \<and> rx_m n b s cs k = None)"
    by (simp split: option.splits)
  have 2: "(rx_m n (Alt a b) s cs' k' = None) =
      (rx_m n a s cs' k' = None \<and> rx_m n b s cs' k' = None)"
    by (simp split: option.splits)
  show ?case
    unfolding 1 2
    using Alt.IH(1) [of k k' s cs cs'] Alt.IH(2) [of k k' s cs cs'] Alt.prems by simp
next
  case (Opt a)
  have 1: "(rx_m n (Opt a) s cs k = None) = (rx_m n a s cs k = None \<and> k s cs = None)"
    by (simp split: option.splits)
  have 2: "(rx_m n (Opt a) s cs' k' = None) = (rx_m n a s cs' k' = None \<and> k' s cs' = None)"
    by (simp split: option.splits)
  show ?case
    unfolding 1 2
    using Opt.IH [of k k' s cs cs'] Opt.prems Opt.prems [of s cs cs'] by blast
next
  case (Grp i a)
  show ?case
    using Grp.IH [of "\<lambda>r cs'. k r ((i, take (length s - length r) s) # cs')"
        "\<lambda>r cs'. k' r ((i, take (length s - length r) s) # cs')" s cs cs'] Grp.prems
    by simp
next
  case Bol
  then show ?case by simp
next
  case Eol
  then show ?case by simp
qed

lemma rx_m_None_iff:
  assumes "\<And>r c. (k r c = None) = (\<not> P r)"
  shows "rx_m n a s cs k = None \<longleftrightarrow> \<not> matches_to n a s P"
  unfolding matches_to_def
  using rx_m_None_cong [of k "\<lambda>r cs. if P r then Some r else None" n a s cs "[]"] assms
  by simp

lemma rx_at_None: "rx_at n a s = None \<longleftrightarrow> \<not> matches_to n a s (\<lambda>r. True)"
  unfolding rx_at_def by (rule rx_m_None_iff) simp

lemma matches_to_Lit: "matches_to n (Lit l) s P \<longleftrightarrow> (\<exists>r. s = l @ r \<and> P r)"
proof (cases "lit l s")
  case None
  then have "\<forall>r. s \<noteq> l @ r" by (simp add: lit_None)
  then show ?thesis using None unfolding matches_to_def by simp
next
  case (Some r)
  then have "s = l @ r" by (simp add: lit_Some)
  then show ?thesis using Some unfolding matches_to_def by auto
qed

lemma matches_to_LazyStar:
  "matches_to n (LazyStar p) s P \<longleftrightarrow> (\<exists>i \<le> length (takeWhile p s). P (drop i s))"
  unfolding matches_to_def by (auto simp: star_lazy_None)

lemma matches_to_Star:
  "matches_to n (Star p) s P \<longleftrightarrow> (\<exists>i \<le> length (takeWhile p s). P (drop i s))"
  unfolding matches_to_def by (auto simp: star_greedy_None)

lemma matches_to_Seq:
  "matches_to n (Seq a b) s P \<longleftrightarrow> matches_to n a s (\<lambda>r. matches_to n b r P)"
proof -
  have "rx_m n (Seq a b) s [] (\<lambda>r cs. if P r then Some r else None) = None \<longleftrightarrow>
      \<not> matches_to n a s (\<lambda>r. matches_to n b r P)"
    unfolding rx_m.simps
  proof (rule rx_m_None_iff)
    fix r c
    show "(rx_m n b r c (\<lambda>r cs. if P r then Some r else None) = None) =
        (\<not> matches_to n b r P)"
      by (rule rx_m_None_iff) simp
  qed
  then show ?thesis unfolding matches_to_def [of n "Seq a b"] by simp
qed

lemma matches_to_Alt:
  "matches_to n (Alt a b) s P \<longleftrightarrow> matches_to n a s P \<or> matches_to n b s P"
  unfolding matches_to_def by (simp split: option.splits)

lemma matches_to_Opt:
  "matches_to n (Opt a) s P \<longleftrightarrow> matches_to n a s P \<or> P s"
  unfolding matches_to_def by (simp split: option.splits)

lemma matches_to_Grp: "matches_to n (Grp i a) s P \<longleftrightarrow> matches_to n a s P"
proof -
  have "rx_m n (Grp i a) s [] (\<lambda>r cs. if P r then Some r else None) = None \<longleftrightarrow>
      \<not> matches_to n a s P"
    unfolding rx_m.simps by (rule rx_m_None_iff) simp
  then show ?thesis unfolding matches_to_def [of n "Grp i a"] by simp
qed

lemmas matches_to_simps =
  matches_to_Lit matches_to_LazyStar matches_to_Star matches_to_Seq matches_to_Alt
  matches_to_Opt matches_to_Grp

lemma in_set_drop: "c \<in> set r \<longleftrightarrow> (\<exists>i \<le> length r. \<exists>b. drop i r = c # b)"
proof
  assume "c \<in> set r"
  then obtain i where i: "i < length r" "r ! i = c" by (auto simp: in_set_conv_nth)
  then have "drop i r = c # drop (Suc i) r" by (simp add: Cons_nth_drop_Suc [symmetric])
  then show "\<exists>i \<le> length r. \<exists>b. drop i r = c # b" using i(1) by (intro exI [of _ i]) simp
next
  assume "\<exists>i \<le> length r. \<exists>b. drop i r = c # b"
  then obtain i b where "drop i r = c # b" by blast
  then have "c \<in> set (drop i r)" by simp
  then show "c \<in> set r" by (rule in_set_dropD)
qed

lemma takeWhile_any: "takeWhile any_char r = r"
  by (induction r) (simp_all add: any_char_def)

lemma arguments_at_None:
  "rx_at n ARGUMENTS s = None \<longleftrightarrow>
     \<not> (\<exists>b. s = CHR ''('' # b \<and> CHR '')'' \<in> set b) \<and>
     \<not> arrow_at s \<and> \<not> (\<exists>r. s = ''async '' @ r \<and> arrow_at r)"
proof -
  have "matches_to n ARGUMENTS s (\<lambda>r. True) \<longleftrightarrow>
      (\<exists>b. s = ''('' @ b \<and> (\<exists>i \<le> length b. \<exists>r. drop i b = '')'' @ r)) \<or>
      (\<exists>r. s = ''async '' @ r \<and> arrow_at r) \<or> arrow_at s"
    unfolding ARGUMENTS_def arrow_at_def
    by (simp only: matches_to_simps takeWhile_any simp_thms)
  moreover have "(\<exists>i \<le> length b. \<exists>r. drop i b = '')'' @ r) \<longleftrightarrow> CHR '')'' \<in> set b" for b
    using in_set_drop [of "CHR '')''" b] by simp
  ultimately have "matches_to n ARGUMENTS s (\<lambda>r. True) \<longleftrightarrow>
      (\<exists>b. s = CHR ''('' # b \<and> CHR '')'' \<in> set b) \<or>
      (\<exists>r. s = ''async '' @ r \<and> arrow_at r) \<or> arrow_at s"
    by simp
  then show ?thesis
    unfolding rx_at_None by blast
qed

lemma arrow_at_has_arrow: "arrow_at r \<Longrightarrow> has_arrow (a @ r)"
proof -
  assume "arrow_at r"
  then obtain i b where "drop i r = ''=>'' @ b" unfolding arrow_at_def by blast
  then have "r = take i r @ ''=>'' @ b" by (metis append_take_drop_id)
  then have "a @ r = (a @ take i r) @ ''=>'' @ b" by simp
  then show ?thesis unfolding has_arrow_def by blast
qed

lemma rx_exec_None: "rx_exec r t = None \<longleftrightarrow> rx_search (length t) r t = None"
  by (simp add: rx_exec_def split: option.splits)

lemma arguments_exec_None:
  "rx_exec ARGUMENTS t = None \<longleftrightarrow> \<not> has_parameter_list t \<and> \<not> has_arrow t"
proof -
  have "rx_exec ARGUMENTS t = None \<longleftrightarrow>
      (\<forall>a sfx. t = a @ sfx \<longrightarrow> rx_at (length t) ARGUMENTS sfx = None)"
    unfolding rx_exec_None by (rule rx_search_None)
  also have "\<dots> \<longleftrightarrow> \<not> has_parameter_list t \<and> \<not> has_arrow t"
  proof
    assume l: "\<forall>a sfx. t = a @ sfx \<longrightarrow> rx_at (length t) ARGUMENTS sfx = None"
    have "\<not> has_parameter_list t"
    proof
      assume "has_parameter_list t"
      then obtain a b where ab: "t = a @ CHR ''('' # b" "CHR '')'' \<in> set b"
        unfolding has_parameter_list_def by blast
      have "rx_at (length t) ARGUMENTS (CHR ''('' # b) = None"
        using l [rule_format, OF ab(1)] .
      then have "\<not> (\<exists>b'. CHR ''('' # b = CHR ''('' # b' \<and> CHR '')'' \<in> set b')"
        unfolding arguments_at_None by (rule conjunct1)
      then show False using ab(2) by blast
    qed
    moreover have "\<not> has_arrow t"
    proof
      assume "has_arrow t"
      then obtain a b where ab: "t = a @ ''=>'' @ b" unfolding has_arrow_def by blast
      have "rx_at (length t) ARGUMENTS (''=>'' @ b) = None"
        using l [rule_format, OF ab] .
      then have "\<not> arrow_at (''=>'' @ b)"
        unfolding arguments_at_None by blast
      moreover have "arrow_at (''=>'' @ b)"
        unfolding arrow_at_def by (intro exI [of _ 0]) simp
      ultimately show False by simp
    qed
    ultimately show "\<not> has_parameter_list t \<and> \<not> has_arrow t" by simp
  next
    assume r: "\<not> has_parameter_list t \<and> \<not> has_arrow t"
    show "\<forall>a sfx. t = a @ sfx \<longrightarrow> rx_at (length t) ARGUMENTS sfx = None"
    proof (intro allI impI)
      fix a sfx assume t: "t = a @ sfx"
      have 1: "\<not> (\<exists>b. sfx = CHR ''('' # b \<and> CHR '')'' \<in> set b)"
        using r t unfolding has_parameter_list_def by blast
      have 2: "\<not> arrow_at sfx" using r t arrow_at_has_arrow by blast
      have 3: "\<not> (\<exists>r. sfx = ''async '' @ r \<and> arrow_at r)"
      proof
        assume "\<exists>r. sfx = ''async '' @ r \<and> arrow_at r"
        then obtain r' where r': "sfx = ''async '' @ r'" "arrow_at r'" by blast
        then have "has_arrow ((a @ ''async '') @ r')" using arrow_at_has_arrow by blast
        then show False using r t r'(1) by simp
      qed
      show "rx_at (length t) ARGUMENTS sfx = None"
        unfolding arguments_at_None using 1 2 3 by (intro conjI)
    qed
  qed
  finally show ?thesis .
qed

lemma constructor_exec_None:
  assumes "\<not> contains ''constructor'' s"
  shows "rx_exec CONSTRUCTOR_REGEX s = None"
  unfolding rx_exec_None rx_search_None
proof (intro allI impI)
  fix a sfx assume s: "s = a @ sfx"
  have "\<not> matches_to (length s) CONSTRUCTOR_REGEX sfx (\<lambda>r. True)"
  proof
    assume "matches_to (length s) CONSTRUCTOR_REGEX sfx (\<lambda>r. True)"
    then obtain r where "sfx = ''constructor'' @ r"
      unfolding CONSTRUCTOR_REGEX_def matches_to_Seq [of _ "Lit ''constructor''"] matches_to_Lit
      by blast
    then show False using assms s unfolding contains_def by blast
  qed
  then show "rx_at (length s) CONSTRUCTOR_REGEX sfx = None" by (simp add: rx_at_None)
qed

lemma parse_list_fails:
  "parse_list t = Inl e \<longleftrightarrow>
     e = Error unable_to_parse \<and> \<not> has_parameter_list (prepare t) \<and> \<not> has_arrow (prepare t)"
  unfolding arguments_exec_None [symmetric]
  by (auto simp: parse_list_def Let_def split: option.splits)

lemma getArgumentsFromString_searched:
  "getArgumentsFromString s = (case searched s of None \<Rightarrow> Inr [] | Some t \<Rightarrow> parse_list t)"
  by (auto simp: getArgumentsFromString_def searched_def split: option.splits)

section \<open>The claims\<close>




text \<open>
  C2. If \<open>a\<close> is registered with a provider whose only dependency is \<open>b\<close>, and \<open>b\<close>
  with one whose only dependency is \<open>a\<close> (two different names without optionality
  marker, neither node resolved), then \<^verbatim>\<open>resolve(a)\<close> fails with the circular
  dependency error whose chain is \<open>a, b, a\<close>: from the first occurrence of the
  repeated name through the repeat.
\<close>

theorem resolve_mutual_cycle:
  assumes "register c0 a f = Inr c1" and "register c1 b g = Inr c"
    and "getArguments f = Inr [b]" and "getArguments g = Inr [a]"
    and "a \<noteq> b" and "\<not> is_optional a" and "\<not> is_optional b"
    and "strip_underscores a = a"
  shows "resolve c (WithName a None) = (Inl (circular [a, b, a]), c)"
proof -
  let ?na = "\<lparr>factory = Some f, dependencyNames = Some [b], node_value = None\<rparr>"
  let ?nb = "\<lparr>factory = Some g, dependencyNames = Some [a], node_value = None\<rparr>"
  have "map_of (graph c1) a = Some ?na"
    using map_of_register [OF assms(1)] assms(3) by auto
  then have ma: "map_of (graph c) a = Some ?na" and mb: "map_of (graph c) b = Some ?nb"
    using map_of_register [OF assms(2)] assms(4,5) by auto
  have ga: "graph_get (graph c) (node_name a) = Some ?na"
    using ma assms(6) by (simp add: graph_get_own node_name_plain)
  have gb: "graph_get (graph c) (node_name b) = Some ?nb"
    using mb assms(7) by (simp add: graph_get_own node_name_plain)
  have s3: "resolve_priv c a [a, b] = (Inl (circular [a, b, a]), c)"
    using resolve_priv_cycle [OF ga, of "[a, b]"] by simp
  have s2: "resolve_priv c b [a] = (Inl (circular [a, b, a]), c)"
    using resolve_priv_enter [OF gb, of "[a]" "[a]" "circular [a, b, a]" c] s3 assms(5) by simp
  have s1: "resolve_priv c a [] = (Inl (circular [a, b, a]), c)"
    using resolve_priv_enter [OF ga, of "[]" "[b]" "circular [a, b, a]" c] s2 by simp
  show ?thesis
    using s1 assms(8) by (simp add: initial_chain_def resolve_name_def)
qed

theorem resolve_mutual_cycle_witness:
  "getArguments fn_A = Inr [''B''] \<and> getArguments fn_B = Inr [''A''] \<and>
   map fst (graph injector_AB) = [''$injector'', ''A'', ''B''] \<and>
   resolve injector_AB (WithName ''A'' None) =
     (Inl (Error ''Circular dependency found: A -> B -> A''), injector_AB)"
proof -
  have a: "getArguments fn_A = Inr [''B'']" by code_simp
  have b: "getArguments fn_B = Inr [''A'']" by code_simp
  obtain c1 where c1: "register Injector ''A'' fn_A = Inr c1"
    using a by (simp add: register_def)
  obtain c where c: "register c1 ''B'' fn_B = Inr c"
    using b by (simp add: register_def)
  have ab: "injector_AB = c"
    using c1 c by (simp add: injector_AB_def registered_def the_injector_def)
  have "resolve c (WithName ''A'' None) = (Inl (circular [''A'', ''B'', ''A'']), c)"
    using resolve_mutual_cycle [OF c1 c a b]
    by (simp add: is_optional_def strip_underscores_def)
  moreover have "map fst (graph injector_AB) = [''$injector'', ''A'', ''B'']"
    by code_simp
  ultimately show ?thesis using ab a b by (simp add: circular_def)
qed

text \<open>
  C3. On a new injector, on which only \<^verbatim>\<open>$injector\<close> is registered, neither
  \<^verbatim>\<open>resolve("toString?")\<close> nor \<^verbatim>\<open>resolve("toString")\<close> takes the branch for a
  missing node: the read of the graph finds an inherited method, and the read of its
  \<^verbatim>\<open>dependencyNames\<close> raises a TypeError.
\<close>

theorem resolve_inherited_name:
  "map fst (graph Injector) = [''$injector''] \<and>
   fst (resolve Injector (WithName ''toString?'' None)) = Inl TypeError \<and>
   fst (resolve Injector (WithName ''toString'' None)) = Inl TypeError"
  by code_simp

text \<open>
  C4, as claimed: every name resolved during one call \<^verbatim>\<open>resolve(fn, locals)\<close>,
  nested names included, whose stripped form has a truthy local resolves to that local.
  With \<^verbatim>\<open>a\<close> registered as the value 1 and \<^verbatim>\<open>outer\<close> as
  \<^verbatim>\<open>function (a) { return a; }\<close>, the call
  \<^verbatim>\<open>resolve(function (outer) { return outer; }, {a: 5})\<close> returns 1: the nested
  name \<^verbatim>\<open>a\<close> is resolved from the graph, not from the locals. And
  \<^verbatim>\<open>resolve(function (/* optional */ a) { return a; }, {a: 5})\<close> returns 1 too:
  the parameter name is \<^verbatim>\<open>a?\<close>, the locals are read with that name, marker
  included, and the name is then resolved from the graph.
\<close>

theorem locals_not_consulted_as_claimed:
  "[''a'' \<mapsto> Num 5] ''a'' = Some (Num 5) \<and> truthy (Num 5) \<and>
   getArguments fn_outer = Inr [''outer''] \<and>
   map_of (graph injector_nested) ''outer'' =
     Some \<lparr>factory = Some fn_a, dependencyNames = Some [''a''], node_value = None\<rparr> \<and>
   fst (resolve injector_nested (WithFunction fn_outer (Some [''a'' \<mapsto> Num 5]) None)) =
     Inr (One (Num 1)) \<and>
   getArguments fn_opt = Inr [''a?''] \<and> node_name ''a?'' = ''a'' \<and>
   fst (resolve injector_a (WithFunction fn_opt (Some [''a'' \<mapsto> Num 5]) None)) =
     Inr (One (Num 1))"
proof -
  have a: "getArguments fn_a = Inr [''a'']" by code_simp
  have o: "getArguments fn_outer = Inr [''outer'']" by code_simp
  have n: "map_of (graph injector_nested) ''outer'' =
      Some \<lparr>factory = Some fn_a, dependencyNames = Some [''a''], node_value = None\<rparr>"
    using a by (simp add: injector_nested_def the_injector_def register_def update_conv')
  have r: "fst (resolve injector_nested (WithFunction fn_outer (Some [''a'' \<mapsto> Num 5]) None)) =
      Inr (One (Num 1))"
    by code_simp
  have p: "getArguments fn_opt = Inr [''a?'']" by code_simp
  have nn: "node_name ''a?'' = ''a''" by code_simp
  have q: "fst (resolve injector_a (WithFunction fn_opt (Some [''a'' \<mapsto> Num 5]) None)) =
      Inr (One (Num 1))"
    by code_simp
  show ?thesis using o n r p nn q by simp
qed

text \<open>
  C4, amended. The local override is a step of the top-level map of
  \<^verbatim>\<open>resolve(fn, locals)\<close> only, and it reads the locals with the parameter name
  without its wrapping underscores but with its optionality marker. The function is
  invoked on its parameters' values in order: for a parameter with a truthy local, that
  local, and no resolution takes place for it; for the other parameters, what
  \<^verbatim>\<open>_resolve\<close> gives for each of them in turn (the name without its wrapping
  underscores, in the chain of the call), so the names resolved below the top level
  never consult the locals. In particular, when every parameter has a truthy local, the
  function is invoked on the locals and the injector is left as it is, whatever the
  graph holds.
\<close>

theorem locals_override_top_level_only:
  assumes "getArguments fn = Inr names"
  shows "resolve c (WithFunction fn (Some l) ctx) =
      (case resolve_dependencies c
              (map strip_underscores (filter (\<lambda>a. \<not> overridden l a) names))
              (initial_chain ctx) of
         (Inl e, c') \<Rightarrow> (Inl e, c')
       | (Inr vs, c') \<Rightarrow>
           (case invokeFunction (Some fn) (splice l names vs) of
              Inl e \<Rightarrow> (Inl e, c')
            | Inr v \<Rightarrow> (Inr (One v), c'))) \<and>
    ((\<forall>a \<in> set names. overridden l a) \<longrightarrow>
       resolve c (WithFunction fn (Some l) ctx) =
         (case invokeFunction (Some fn)
                 (map (\<lambda>a. property_get l (strip_underscores a)) names) of
            Inl e \<Rightarrow> (Inl e, c)
          | Inr v \<Rightarrow> (Inr (One v), c)))"
proof -
  have 1: "resolve c (WithFunction fn (Some l) ctx) =
      (case resolve_dependencies c
              (map strip_underscores (filter (\<lambda>a. \<not> overridden l a) names))
              (initial_chain ctx) of
         (Inl e, c') \<Rightarrow> (Inl e, c')
       | (Inr vs, c') \<Rightarrow>
           (case invokeFunction (Some fn) (splice l names vs) of
              Inl e \<Rightarrow> (Inl e, c')
            | Inr v \<Rightarrow> (Inr (One v), c')))"
    using assms resolve_names_splice [of c l "initial_chain ctx" names]
      resolve_names_plain [of c "initial_chain ctx" "filter (\<lambda>a. \<not> overridden l a) names"]
    by (simp split: prod.splits sum.splits)
  have 2: "resolve c (WithFunction fn (Some l) ctx) =
         (case invokeFunction (Some fn)
                 (map (\<lambda>a. property_get l (strip_underscores a)) names) of
            Inl e \<Rightarrow> (Inl e, c)
          | Inr v \<Rightarrow> (Inr (One v), c))"
    if all: "\<forall>a \<in> set names. overridden l a"
  proof -
    have "filter (\<lambda>a. \<not> overridden l a) names = []"
      using all by (simp add: filter_empty_conv)
    then show ?thesis using 1 splice_all [OF all] by simp
  qed
  show ?thesis using 1 2 by blast
qed

theorem locals_override_top_level_only_witness:
  "getArguments fn_pair = Inr [''outer'', ''a?''] \<and>
   fst (resolve injector_nested
          (WithFunction fn_pair (Some [''outer'' \<mapsto> Num 7, ''a'' \<mapsto> Num 5]) None)) =
     Inr (One (Bool True)) \<and>
   resolve Injector (WithFunction fn_outer (Some [''outer'' \<mapsto> Num 7]) None) =
     (Inr (One (Num 7)), Injector)"
proof -
  let ?l = "[''outer'' \<mapsto> Num 7, ''a'' \<mapsto> Num 5]"
  have p: "getArguments fn_pair = Inr [''outer'', ''a?'']" by code_simp
  have o: "getArguments fn_outer = Inr [''outer'']" by code_simp
  have s1: "strip_underscores ''outer'' = ''outer''" "strip_underscores ''a?'' = ''a?''"
    by (simp_all add: strip_underscores_def)
  have ov: "overridden ?l ''outer''" "\<not> overridden ?l ''a?''"
    using s1 by (simp_all add: overridden_def property_get_def Object_prototype_names_def)
  obtain r c' where rn: "resolve_dependencies injector_nested [''a?''] (initial_chain None) = (r, c')"
    by (cases "resolve_dependencies injector_nested [''a?''] (initial_chain None)")
  have "fst (resolve_dependencies injector_nested [''a?''] (initial_chain None)) = Inr [Num 1]"
    by code_simp
  then have r: "r = Inr [Num 1]" using rn by simp
  have sp: "splice ?l [''outer'', ''a?''] [Num 1] = [Num 7, Num 1]"
    using ov s1 by (simp add: property_get_def)
  have inv: "invokeFunction (Some fn_pair) [Num 7, Num 1] = Inr (Bool True)" by code_simp
  have "resolve injector_nested (WithFunction fn_pair (Some ?l) None) =
      (case resolve_dependencies injector_nested
              (map strip_underscores (filter (\<lambda>a. \<not> overridden ?l a) [''outer'', ''a?'']))
              (initial_chain None) of
         (Inl e, c') \<Rightarrow> (Inl e, c')
       | (Inr vs, c') \<Rightarrow>
           (case invokeFunction (Some fn_pair) (splice ?l [''outer'', ''a?''] vs) of
              Inl e \<Rightarrow> (Inl e, c')
            | Inr v \<Rightarrow> (Inr (One v), c')))"
    using locals_override_top_level_only [OF p, of injector_nested ?l None] by (rule conjunct1)
  moreover have "map strip_underscores (filter (\<lambda>a. \<not> overridden ?l a) [''outer'', ''a?'']) =
      [''a?'']"
    using ov s1 by simp
  ultimately have one: "fst (resolve injector_nested (WithFunction fn_pair (Some ?l) None)) =
      Inr (One (Bool True))"
    using rn r sp inv by (simp del: resolve.simps resolve_dependencies.simps)
  have ov7: "\<forall>a \<in> set [''outer'']. overridden [''outer'' \<mapsto> Num 7] a"
    using s1 by (simp add: overridden_def property_get_def)
  have inv7: "invokeFunction (Some fn_outer) [Num 7] = Inr (Num 7)" by code_simp
  have "resolve Injector (WithFunction fn_outer (Some [''outer'' \<mapsto> Num 7]) None) =
         (case invokeFunction (Some fn_outer)
                 (map (\<lambda>a. property_get [''outer'' \<mapsto> Num 7] (strip_underscores a)) [''outer'']) of
            Inl e \<Rightarrow> (Inl e, Injector)
          | Inr v \<Rightarrow> (Inr (One v), Injector))"
    using locals_override_top_level_only [OF o, of Injector "[''outer'' \<mapsto> Num 7]" None] ov7
    by blast
  then have two: "resolve Injector (WithFunction fn_outer (Some [''outer'' \<mapsto> Num 7]) None) =
      (Inr (One (Num 7)), Injector)"
    using inv7 s1 by (simp add: property_get_def del: resolve.simps)
  show ?thesis using p one two by simp
qed



text \<open>
  C6, as claimed: a name whose stripped form is already in the chain fails at that
  point. With \<^verbatim>\<open>A\<close> registered as \<^verbatim>\<open>function (/* optional */ A) { return 1; }\<close>,
  whose only dependency is \<^verbatim>\<open>A?\<close>, the resolution of \<^verbatim>\<open>A?\<close> below \<^verbatim>\<open>A\<close> does not
  fail with the chain \<^verbatim>\<open>A, A?\<close>: the check looks for \<^verbatim>\<open>A?\<close> as written, the node
  is entered a second time, and the error comes one level further down, with a chain
  that names the node \<^verbatim>\<open>A\<close> three times.
\<close>

theorem optional_self_reference_enters_twice:
  "getArguments fn_self = Inr [''A?''] \<and> node_name ''A?'' = ''A'' \<and>
   fst (resolve_priv injector_self ''A?'' [''A'']) \<noteq> Inl (circular [''A'', ''A?'']) \<and>
   fst (resolve_priv injector_self ''A?'' [''A'']) = Inl (circular [''A'', ''A?'', ''A?'']) \<and>
   fst (resolve injector_self (WithName ''A'' None)) =
     Inl (Error ''Circular dependency found: A -> A? -> A?'')"
  by code_simp

text \<open>
  C6, amended. The cycle check compares the name as written, with its marker: when the
  node is not yet resolved and the name as written is in the chain, the resolution
  fails at that point with the circular dependency error for the chain extended by the
  name. So a chain never holds a name as written twice: every circular dependency
  error that a resolution started with a repetition-free chain ends in names a chain
  that extends the initial one, has no repetition up to its last name, and ends with
  the repetition of an earlier name.
\<close>

theorem cycle_check_compares_written_name:
  "(\<forall>n. graph_get (graph c) (node_name name) = Some n \<longrightarrow> node_value n = None \<longrightarrow>
        name \<in> set prev \<longrightarrow>
        resolve_priv c name prev = (Inl (circular (prev @ [name])), c)) \<and>
   (distinct prev \<longrightarrow>
      fst (resolve_priv c name prev) = Inl (Error (''Circular dependency found: '' @ m)) \<longrightarrow>
      (\<exists>ch x. m = join '' -> '' (prev @ ch @ [x]) \<and> distinct (prev @ ch) \<and>
         x \<in> set (prev @ ch)))"
  using resolve_priv_cycle [of c name _ prev] chain_invariant(1) [of prev c name m]
  by (simp add: circular_prefix_def repeats_once_def)

theorem cycle_check_compares_written_name_witness:
  "resolve_priv injector_self ''A?'' [''A'', ''A?''] =
     (Inl (circular [''A'', ''A?'', ''A?'']), injector_self) \<and>
   (\<exists>ch x. ''A -> A? -> A?'' = join '' -> '' (ch @ [x]) \<and> distinct ch \<and> x \<in> set ch)"
proof -
  let ?nd = "\<lparr>factory = Some fn_self, dependencyNames = Some [''A?''], node_value = None\<rparr>"
  have args: "getArguments fn_self = Inr [''A?'']" by code_simp
  have own: "map_of (graph injector_self) ''A'' = Some ?nd"
    using args by (simp add: injector_self_def the_injector_def register_def update_conv')
  have nn: "node_name ''A?'' = ''A''" by code_simp
  have get: "graph_get (graph injector_self) (node_name ''A?'') = Some ?nd"
    using own nn by (simp add: graph_get_own)
  have top: "fst (resolve_priv injector_self ''A'' []) =
      Inl (Error (''Circular dependency found: '' @ ''A -> A? -> A?''))"
    by code_simp
  note t = cycle_check_compares_written_name [of injector_self "''A?''" "[''A'', ''A?'']"]
  note u = cycle_check_compares_written_name [of injector_self "''A''" "[]" "''A -> A? -> A?''"]
  have one: "resolve_priv injector_self ''A?'' [''A'', ''A?''] =
     (Inl (circular [''A'', ''A?'', ''A?'']), injector_self)"
    using t get by simp
  have two: "\<exists>ch x. ''A -> A? -> A?'' = join '' -> '' (ch @ [x]) \<and> distinct ch \<and> x \<in> set ch"
    using u top by simp
  show ?thesis using one two by blast
qed

text \<open>
  C7. \<^verbatim>\<open>Injector._invokeFunction\<close> with an absent provider: the first statement
  calls \<^verbatim>\<open>fn.toString()\<close>, so the call raises a TypeError for every argument list
  and never reaches the test \<^verbatim>\<open>else if (fn)\<close> that would have made it a no-op.
\<close>

theorem invokeFunction_absent_provider: "invokeFunction None args = Inl TypeError"
  by (simp add: invokeFunction_def)




text \<open>
  C9. On a new injector, on which only \<^verbatim>\<open>$injector\<close> is registered,
  \<^verbatim>\<open>isRegistered("toString")\<close> is true: the read \<^verbatim>\<open>this._graph["toString"]\<close> finds
  the method that the graph object inherits.
\<close>

theorem isRegistered_inherited_name:
  "map fst (graph Injector) = [''$injector''] \<and> isRegistered Injector ''toString''"
  by code_simp

text \<open>
  C10, as claimed: the parse failure is raised for non-class text only. The class
  \<^verbatim>\<open>class A { constructor(//)\<close>, newline, \<^verbatim>\<open> a) {} }\<close> has a constructor with the
  parameter \<^verbatim>\<open>a\<close> after a line comment. The constructor pattern stops at the
  parenthesis inside the comment, the stripping of comments removes it, and no
  parameter list is left: the parse fails.
\<close>

theorem class_commented_fails:
  "rx_test IS_CLASS_REGEX class_commented \<and>
   rx_exec CONSTRUCTOR_REGEX class_commented = Some (''constructor(//)'', []) \<and>
   prepare ''constructor(//)'' = ''constructor('' \<and>
   getArgumentsFromString class_commented = Inl (Error unable_to_parse)"
  by code_simp

text \<open>
  C10, amended. The text of a class in which the constructor pattern finds nothing
  (as when the word \<^verbatim>\<open>constructor\<close> does not occur in it) parses to the empty
  dependency list. The parse fails, with the one parse error, exactly when the text
  that is searched (the match of the constructor pattern for a class, the whole text
  otherwise) holds, after the conversion of the optional markers and the stripping of
  comments, neither a parenthesized list nor an arrow; this happens for class text too.
\<close>

theorem parse_failure_characterised:
  "(rx_test IS_CLASS_REGEX s \<longrightarrow>
      rx_exec CONSTRUCTOR_REGEX s = None \<or> \<not> contains ''constructor'' s \<longrightarrow>
      getArgumentsFromString s = Inr []) \<and>
   (getArgumentsFromString s = Inl e \<longleftrightarrow>
      e = Error unable_to_parse \<and>
      (\<exists>t. searched s = Some t \<and>
         \<not> has_parameter_list (prepare t) \<and> \<not> has_arrow (prepare t)))"
proof -
  have 1: "getArgumentsFromString s = Inr []"
    if "rx_test IS_CLASS_REGEX s"
      "rx_exec CONSTRUCTOR_REGEX s = None \<or> \<not> contains ''constructor'' s"
  proof -
    have "rx_exec CONSTRUCTOR_REGEX s = None" using that(2) constructor_exec_None by blast
    then show ?thesis using that(1) by (simp add: getArgumentsFromString_def)
  qed
  have 2: "getArgumentsFromString s = Inl e \<longleftrightarrow>
      e = Error unable_to_parse \<and>
      (\<exists>t. searched s = Some t \<and>
         \<not> has_parameter_list (prepare t) \<and> \<not> has_arrow (prepare t))"
    unfolding getArgumentsFromString_searched
    by (cases "searched s") (simp_all add: parse_list_fails)
  show ?thesis using 1 2 by blast
qed

theorem parse_failure_characterised_witness:
  "getArgumentsFromString class_plain = Inr [] \<and>
   searched ''5'' = Some ''5'' \<and>
   \<not> has_parameter_list (prepare ''5'') \<and> \<not> has_arrow (prepare ''5'')"
proof -
  have c: "rx_test IS_CLASS_REGEX class_plain" by code_simp
  have n: "rx_exec CONSTRUCTOR_REGEX class_plain = None" by code_simp
  have f: "getArgumentsFromString ''5'' = Inl (Error unable_to_parse)" by code_simp
  have s: "searched ''5'' = Some ''5''" by code_simp
  note t1 = parse_failure_characterised [of class_plain]
  note t2 = parse_failure_characterised [of "''5''" "Error unable_to_parse"]
  have "getArgumentsFromString class_plain = Inr []" using t1 c n by blast
  moreover have "\<not> has_parameter_list (prepare ''5'') \<and> \<not> has_arrow (prepare ''5'')"
    using t2 f s by auto
  ultimately show ?thesis using s by simp
qed

end
